theory Spec2Isabelle
  imports Main "HOL-Library.Sublist" "HOL-Library.Word"
begin

section \<open>Python values\<close>

text \<open>
  A Python \<open>str\<close> is a sequence of Unicode code points. The scripts distinguish the
  space character from the other white space that \<open>str.strip()\<close> removes, so a
  string is modelled as the list of its code points.
\<close>

type_synonym codepoint = nat
type_synonym pystr = "codepoint list"

definition py :: "string \<Rightarrow> pystr" where
  "py s = map of_char s"

text \<open>
  The value \<open>json.loads\<close> returns. A float is kept as its 64 bit pattern: none of the
  scripts computes with one. A \<open>dict\<close> keeps insertion order: an association list.
\<close>

datatype json =
    JNull
  | JBool bool
  | JInt int
  | JFloat "64 word"
  | JStr pystr
  | JArr "json list"
  | JObj "(pystr \<times> json) list"

type_synonym pydict = "(pystr \<times> json) list"

datatype error =
    AttributeError
  | FileNotFoundError
  | UnicodeEncodeError
  | ValueError nat pystr
  | Uncaught pystr

text \<open>\<open>d.get(k)\<close>: the value of the key, or \<open>None\<close>.\<close>

fun dict_get :: "pydict \<Rightarrow> pystr \<Rightarrow> json option" where
  "dict_get [] k = None"
| "dict_get ((k', v) # d) k = (if k' = k then Some v else dict_get d k)"

text \<open>\<open>d.get(k, default)\<close>.\<close>

definition dict_get_default :: "pydict \<Rightarrow> pystr \<Rightarrow> json \<Rightarrow> json" where
  "dict_get_default d k dflt = (case dict_get d k of None \<Rightarrow> dflt | Some v \<Rightarrow> v)"

text \<open>
  \<open>d[k] = v\<close>: an existing key keeps its place and gets the new value, a new key goes
  to the end.
\<close>

fun dict_setitem :: "pydict \<Rightarrow> pystr \<Rightarrow> json \<Rightarrow> pydict" where
  "dict_setitem [] k v = [(k, v)]"
| "dict_setitem ((k', v') # d) k v =
     (if k' = k then (k, v) # d else (k', v') # dict_setitem d k v)"

definition useragent :: pystr where
  "useragent = py ''useragent''"

section \<open>String methods\<close>

text \<open>
  The characters \<open>str.strip()\<close>, \<open>str.rstrip()\<close> and \<open>str.isspace()\<close> take for white
  space: U+0009 to U+000D, U+001C to U+0020, U+0085, U+00A0, U+1680, U+2000 to U+200A,
  U+2028, U+2029, U+202F, U+205F and U+3000.
\<close>

definition py_isspace :: "codepoint \<Rightarrow> bool" where
  "py_isspace c \<longleftrightarrow>
     (9 \<le> c \<and> c \<le> 13) \<or> (28 \<le> c \<and> c \<le> 32) \<or> c = 133 \<or> c = 160 \<or> c = 5760 \<or>
     (8192 \<le> c \<and> c \<le> 8202) \<or> c = 8232 \<or> c = 8233 \<or> c = 8239 \<or> c = 8287 \<or>
     c = 12288"

definition is_space :: "codepoint \<Rightarrow> bool" where
  "is_space c \<longleftrightarrow> c = 32"

definition lstrip_by :: "(codepoint \<Rightarrow> bool) \<Rightarrow> pystr \<Rightarrow> pystr" where
  "lstrip_by P s = dropWhile P s"

definition rstrip_by :: "(codepoint \<Rightarrow> bool) \<Rightarrow> pystr \<Rightarrow> pystr" where
  "rstrip_by P s = rev (dropWhile P (rev s))"

text \<open>\<open>s.strip()\<close>\<close>

definition str_strip :: "pystr \<Rightarrow> pystr" where
  "str_strip s = rstrip_by py_isspace (lstrip_by py_isspace s)"

text \<open>\<open>s.rstrip()\<close>\<close>

definition str_rstrip :: "pystr \<Rightarrow> pystr" where
  "str_rstrip s = rstrip_by py_isspace s"

text \<open>\<open>s.rstrip(" ")\<close>\<close>

definition rstrip_space :: "pystr \<Rightarrow> pystr" where
  "rstrip_space s = rstrip_by is_space s"

text \<open>\<open>s.endswith(" ")\<close>, \<open>s.startswith(" ")\<close> and \<open>"  " in s\<close>\<close>

definition endswith_space :: "pystr \<Rightarrow> bool" where
  "endswith_space s \<longleftrightarrow> s \<noteq> [] \<and> last s = 32"

definition startswith_space :: "pystr \<Rightarrow> bool" where
  "startswith_space s \<longleftrightarrow> s \<noteq> [] \<and> hd s = 32"

fun has_double_space :: "pystr \<Rightarrow> bool" where
  "has_double_space (a # b # s) = ((a = 32 \<and> b = 32) \<or> has_double_space (b # s))"
| "has_double_space _ = False"

text \<open>
  What the specification asks of the normalizer: the value without its leading and
  trailing U+0020 characters, other white space kept.
\<close>

definition strip_spaces :: "pystr \<Rightarrow> pystr" where
  "strip_spaces s = rstrip_by is_space (lstrip_by is_space s)"

section \<open>The normalizers\<close>

subsection \<open>gpt-5.1-codex-max: \<open>_clean_record\<close>\<close>

text \<open>
  \<^verbatim>\<open>
  def _clean_record(record: dict) -> Tuple[dict, bool]:
      ua = record.get("useragent", "")
      cleaned = ua.strip()
      updated = dict(record)
      updated["useragent"] = cleaned
      return updated, cleaned != ua
  \<close>
  Only a \<open>str\<close> has \<open>strip\<close>: any other value raises \<open>AttributeError\<close>.
\<close>

definition clean_record :: "pydict \<Rightarrow> error + (pydict \<times> bool)" where
  "clean_record record =
     (case dict_get_default record useragent (JStr []) of
        JStr ua \<Rightarrow>
          (let cleaned = str_strip ua;
               updated = dict_setitem record useragent (JStr cleaned)
           in Inr (updated, cleaned \<noteq> ua))
      | _ \<Rightarrow> Inl AttributeError)"

subsection \<open>oswe-large-m5a1s120: \<open>fix_useragents\<close>\<close>

text \<open>
  \<^verbatim>\<open>
  def fix_useragents(records):
      fixed_records = []
      fixed_count = 0
      for rec in records:
          rec_copy = dict(rec)
          ua = rec_copy.get("useragent")
          if isinstance(ua, str):
              cleaned = ua.rstrip(" ")
              if cleaned != ua:
                  fixed_count += 1
                  rec_copy["useragent"] = cleaned
          fixed_records.append(rec_copy)
      return fixed_records, fixed_count
  \<close>
  The records are dicts, as the annotation \<open>List[Dict[str, Any]]\<close> has it. \<open>fix_rec\<close> is
  one turn of the loop: the copy to append and whether it was counted.
\<close>

definition fix_rec :: "pydict \<Rightarrow> pydict \<times> bool" where
  "fix_rec rec =
     (case dict_get rec useragent of
        Some (JStr ua) \<Rightarrow>
          (let cleaned = rstrip_space ua
           in if cleaned \<noteq> ua then (dict_setitem rec useragent (JStr cleaned), True)
              else (rec, False))
      | _ \<Rightarrow> (rec, False))"

fun fix_loop :: "pydict list \<Rightarrow> pydict list \<Rightarrow> nat \<Rightarrow> pydict list \<times> nat" where
  "fix_loop [] fixed_records fixed_count = (fixed_records, fixed_count)"
| "fix_loop (rec # records) fixed_records fixed_count =
     (case fix_rec rec of
        (rec_copy, counted) \<Rightarrow>
          fix_loop records (fixed_records @ [rec_copy])
            (if counted then fixed_count + 1 else fixed_count))"

definition fix_useragents :: "pydict list \<Rightarrow> pydict list \<times> nat" where
  "fix_useragents records = fix_loop records [] 0"

subsection \<open>Claude-Opus-4.5: the record step of \<open>fix_browsers_json\<close>\<close>

text \<open>
  \<^verbatim>\<open>
            ua = data.get('useragent', '')
            if ua.endswith(' '):
                data['useragent'] = ua.rstrip()
                stats['fixed_uas'] += 1
            else:
                stats['unchanged_uas'] += 1
  \<close>
  The result is the record to write and whether it was counted as fixed.
\<close>

definition fix_step :: "pydict \<Rightarrow> error + (pydict \<times> bool)" where
  "fix_step data =
     (case dict_get_default data useragent (JStr []) of
        JStr ua \<Rightarrow>
          (if endswith_space ua
           then Inr (dict_setitem data useragent (JStr (str_rstrip ua)), True)
           else Inr (data, False))
      | _ \<Rightarrow> Inl AttributeError)"

section \<open>Reading and writing the data file\<close>

text \<open>
  \<open>json.loads\<close> and \<open>json.dumps\<close> belong to Python's standard library, not to the
  scripts: each function below that calls one takes it as the argument \<open>loads\<close> or
  \<open>dumps\<close>. \<open>loads line\<close> is \<open>Inr\<close> of the decoded value when \<open>json.loads\<close> returns, and
  \<open>Inl\<close> of the exception when it raises: \<open>JSONDecodeError\<close> with the decoder's message for
  a text that is not JSON, and \<open>OtherException\<close> for anything else it raises (a plain
  \<open>ValueError\<close> for an integer beyond the digit limit, a \<open>RecursionError\<close>). The scripts
  catch \<open>JSONDecodeError\<close> only: another exception leaves them as it is, the error
  \<open>Uncaught\<close> with its message.
\<close>

datatype loads_error =
    JSONDecodeError pystr
  | OtherException pystr

type_synonym json_loads = "pystr \<Rightarrow> loads_error + json"
type_synonym json_dumps = "json \<Rightarrow> pystr"

text \<open>
  The line boundaries of \<open>str.splitlines()\<close>: LF, CR, VT, FF, FS, GS, RS, NEL (U+0085),
  LS (U+2028) and PS (U+2029); CR LF counts as one.
\<close>

definition is_linebreak :: "codepoint \<Rightarrow> bool" where
  "is_linebreak c \<longleftrightarrow>
     c = 10 \<or> c = 11 \<or> c = 12 \<or> c = 13 \<or> c = 28 \<or> c = 29 \<or> c = 30 \<or> c = 133 \<or>
     c = 8232 \<or> c = 8233"

fun splitlines :: "pystr \<Rightarrow> pystr list" where
  "splitlines [] = []"
| "splitlines [c] = (if is_linebreak c then [[]] else [[c]])"
| "splitlines (c # d # s) =
     (if c = 13 \<and> d = 10 then [] # splitlines s
      else if is_linebreak c then [] # splitlines (d # s)
      else (case splitlines (d # s) of
              [] \<Rightarrow> [[c]]
            | l # ls \<Rightarrow> (c # l) # ls))"

text \<open>
  \<open>f.readlines()\<close> of a file opened in text mode: a line ends at LF, CR or CR LF, and
  keeps its end as one LF.
\<close>

fun readlines :: "pystr \<Rightarrow> pystr list" where
  "readlines [] = []"
| "readlines [c] = (if c = 10 \<or> c = 13 then [[10]] else [[c]])"
| "readlines (c # d # s) =
     (if c = 13 \<and> d = 10 then [10] # readlines s
      else if c = 10 \<or> c = 13 then [10] # readlines (d # s)
      else (case readlines (d # s) of
              [] \<Rightarrow> [[c]]
            | l # ls \<Rightarrow> (c # l) # ls))"

text \<open>
  Writing a \<open>str\<close> to a file opened with \<open>encoding="utf-8"\<close> raises
  \<open>UnicodeEncodeError\<close> when it holds a surrogate code point.
\<close>

definition is_surrogate :: "codepoint \<Rightarrow> bool" where
  "is_surrogate c \<longleftrightarrow> 55296 \<le> c \<and> c \<le> 57343"

definition write_utf8 :: "pystr \<Rightarrow> error + pystr" where
  "write_utf8 s = (if list_ex is_surrogate s then Inl UnicodeEncodeError else Inr s)"

subsection \<open>oswe-large-m5a1s120: \<open>load_jsonl\<close> and \<open>save_jsonl\<close>\<close>

text \<open>
  \<^verbatim>\<open>
  def load_jsonl(path):
      lines = path.read_text(encoding="utf-8").splitlines()
      data = []
      for idx, line in enumerate(lines, 1):
          if not line.strip():
              continue
          try:
              data.append(json.loads(line))
          except json.JSONDecodeError as exc:
              raise ValueError(f"Invalid JSON at line {idx}: {exc}") from exc
      return data
  \<close>
  A file is \<open>None\<close> when the path does not exist, and its decoded text otherwise.
\<close>

fun load_loop :: "json_loads \<Rightarrow> pystr list \<Rightarrow> nat \<Rightarrow> json list \<Rightarrow> error + json list" where
  "load_loop loads [] idx data = Inr data"
| "load_loop loads (line # lines) idx data =
     (if str_strip line = [] then load_loop loads lines (idx + 1) data
      else (case loads line of
              Inl (JSONDecodeError exc) \<Rightarrow> Inl (ValueError idx exc)
            | Inl (OtherException msg) \<Rightarrow> Inl (Uncaught msg)
            | Inr v \<Rightarrow> load_loop loads lines (idx + 1) (data @ [v])))"

definition load_jsonl :: "json_loads \<Rightarrow> pystr option \<Rightarrow> error + json list" where
  "load_jsonl loads path =
     (case path of
        None \<Rightarrow> Inl FileNotFoundError
      | Some text \<Rightarrow> load_loop loads (splitlines text) 1 [])"

text \<open>
  \<^verbatim>\<open>
  def save_jsonl(path, records):
      path.parent.mkdir(parents=True, exist_ok=True)
      with path.open("w", encoding="utf-8", newline="\n") as f:
          for obj in records:
              f.write(json.dumps(obj, ensure_ascii=False))
              f.write("\n")
  \<close>
  The result is the text of the file written.
\<close>

definition save_jsonl :: "json_dumps \<Rightarrow> json list \<Rightarrow> error + pystr" where
  "save_jsonl dumps records = write_utf8 (concat (map (\<lambda>obj. dumps obj @ [10]) records))"

subsection \<open>gpt-5.1-codex-max: \<open>fix_file\<close>\<close>

text \<open>
  \<^verbatim>\<open>
  def fix_file(source, target):
      if not source.exists():
          raise FileNotFoundError(f"Missing source data file: {source}")
      lines = source.read_text(encoding="utf-8").splitlines()
      records = []
      fixed_count = 0
      for idx, line in enumerate(lines, 1):
          if not line.strip():
              continue
          try:
              payload = json.loads(line)
          except json.JSONDecodeError as exc:
              raise ValueError(f"Invalid JSON on line {idx}: {exc}") from exc
          cleaned, changed = _clean_record(payload)
          if changed:
              fixed_count += 1
          records.append(cleaned)
      target.parent.mkdir(parents=True, exist_ok=True)
      with target.open("w", encoding="utf-8") as outfile:
          for record in records:
              outfile.write(json.dumps(record, ensure_ascii=False))
              outfile.write("\n")
      total = len(records)
      unchanged = total - fixed_count
      return total, fixed_count, unchanged
  \<close>
  A payload that is not a \<open>dict\<close> has no \<open>get\<close>: \<open>_clean_record\<close> raises
  \<open>AttributeError\<close>. The result is the text written to the target and the tuple returned.
\<close>

fun fix_file_loop ::
  "json_loads \<Rightarrow> pystr list \<Rightarrow> nat \<Rightarrow> pydict list \<Rightarrow> nat \<Rightarrow> error + (pydict list \<times> nat)"
where
  "fix_file_loop loads [] idx records fixed_count = Inr (records, fixed_count)"
| "fix_file_loop loads (line # lines) idx records fixed_count =
     (if str_strip line = [] then fix_file_loop loads lines (idx + 1) records fixed_count
      else (case loads line of
              Inl (JSONDecodeError exc) \<Rightarrow> Inl (ValueError idx exc)
            | Inl (OtherException msg) \<Rightarrow> Inl (Uncaught msg)
            | Inr (JObj payload) \<Rightarrow>
                (case clean_record payload of
                   Inl e \<Rightarrow> Inl e
                 | Inr (cleaned, changed) \<Rightarrow>
                     fix_file_loop loads lines (idx + 1) (records @ [cleaned])
                       (if changed then fixed_count + 1 else fixed_count))
            | Inr _ \<Rightarrow> Inl AttributeError))"

definition fix_file ::
  "json_loads \<Rightarrow> json_dumps \<Rightarrow> pystr option \<Rightarrow> error + (pystr \<times> nat \<times> nat \<times> nat)"
where
  "fix_file loads dumps source =
     (case source of
        None \<Rightarrow> Inl FileNotFoundError
      | Some text \<Rightarrow>
          (case fix_file_loop loads (splitlines text) 1 [] 0 of
             Inl e \<Rightarrow> Inl e
           | Inr (records, fixed_count) \<Rightarrow>
               (case write_utf8 (concat (map (\<lambda>record. dumps (JObj record) @ [10]) records)) of
                  Inl e \<Rightarrow> Inl e
                | Inr written \<Rightarrow>
                    Inr (written, length records, fixed_count,
                         length records - fixed_count))))"

subsection \<open>Claude-Opus-4.5: \<open>fix_browsers_json\<close>\<close>

text \<open>
  \<^verbatim>\<open>
  def fix_browsers_json(original_path, fixed_path):
      stats = {'total_uas': 0, 'fixed_uas': 0, 'unchanged_uas': 0, 'errors': 0}
      fixed_lines = []
      with open(original_path, 'r', encoding='utf-8') as f:
          lines = f.readlines()
      for line_num, line in enumerate(lines, 1):
          line = line.strip()
          if not line:
              continue
          try:
              data = json.loads(line)
              stats['total_uas'] += 1
              ua = data.get('useragent', '')
              if ua.endswith(' '):
                  data['useragent'] = ua.rstrip()
                  stats['fixed_uas'] += 1
              else:
                  stats['unchanged_uas'] += 1
              fixed_lines.append(json.dumps(data, ensure_ascii=False))
          except json.JSONDecodeError as e:
              print(f"[ERROR] Line {line_num}: JSON parse error - {e}")
              stats['errors'] += 1
              continue
      os.makedirs(os.path.dirname(fixed_path), exist_ok=True)
      with open(fixed_path, 'w', encoding='utf-8') as f:
          f.write('\n'.join(fixed_lines))
      return stats
  \<close>
  Only \<open>JSONDecodeError\<close> is caught: the \<open>AttributeError\<close> of a value without \<open>get\<close> or
  \<open>endswith\<close> leaves the function. The result is the text written and the statistics.
\<close>

record stats =
  total_uas :: nat
  fixed_uas :: nat
  unchanged_uas :: nat
  errors :: nat

fun join_lines :: "pystr list \<Rightarrow> pystr" where
  "join_lines [] = []"
| "join_lines [l] = l"
| "join_lines (l # m # ls) = l @ [10] @ join_lines (m # ls)"

fun fix_browsers_loop ::
  "json_loads \<Rightarrow> json_dumps \<Rightarrow> pystr list \<Rightarrow> pystr list \<Rightarrow> stats \<Rightarrow> error + (pystr list \<times> stats)"
where
  "fix_browsers_loop loads dumps [] fixed_lines st = Inr (fixed_lines, st)"
| "fix_browsers_loop loads dumps (line # lines) fixed_lines st =
     (if str_strip line = [] then fix_browsers_loop loads dumps lines fixed_lines st
      else (case loads (str_strip line) of
              Inl (JSONDecodeError e) \<Rightarrow>
                fix_browsers_loop loads dumps lines fixed_lines (st\<lparr>errors := errors st + 1\<rparr>)
            | Inl (OtherException msg) \<Rightarrow> Inl (Uncaught msg)
            | Inr (JObj data) \<Rightarrow>
                (case fix_step data of
                   Inl e \<Rightarrow> Inl e
                 | Inr (data', fixed) \<Rightarrow>
                     fix_browsers_loop loads dumps lines (fixed_lines @ [dumps (JObj data')])
                       (if fixed
                        then st\<lparr>total_uas := total_uas st + 1, fixed_uas := fixed_uas st + 1\<rparr>
                        else st\<lparr>total_uas := total_uas st + 1,
                                unchanged_uas := unchanged_uas st + 1\<rparr>))
            | Inr _ \<Rightarrow> Inl AttributeError))"

definition fix_browsers_json ::
  "json_loads \<Rightarrow> json_dumps \<Rightarrow> pystr option \<Rightarrow> error + (pystr \<times> stats)"
where
  "fix_browsers_json loads dumps original =
     (case original of
        None \<Rightarrow> Inl FileNotFoundError
      | Some text \<Rightarrow>
          (case fix_browsers_loop loads dumps (readlines text) []
                  \<lparr>total_uas = 0, fixed_uas = 0, unchanged_uas = 0, errors = 0\<rparr> of
             Inl e \<Rightarrow> Inl e
           | Inr (fixed_lines, st) \<Rightarrow>
               (case write_utf8 (join_lines fixed_lines) of
                  Inl e \<Rightarrow> Inl e
                | Inr written \<Rightarrow> Inr (written, st))))"

section \<open>The fallback header validators\<close>

text \<open>
  gpt-5.1-codex-max, \<open>tests/test_httpx_compatibility.py\<close>:
  \<^verbatim>\<open>
  def _fallback_validator(ua: str) -> None:
      if ua.startswith(" ") or ua.endswith(" "):
          raise ValueError("Header value has surrounding spaces")
      for ch in ua:
          if ord(ch) < 32 or ord(ch) == 127:
              raise ValueError("Control character in header")
  \<close>
  The value is accepted when no exception is raised: \<open>True\<close> below.
\<close>

fun control_scan :: "pystr \<Rightarrow> bool" where
  "control_scan [] = True"
| "control_scan (ch # ua) = (if ch < 32 \<or> ch = 127 then False else control_scan ua)"

definition fallback_validator :: "pystr \<Rightarrow> bool" where
  "fallback_validator ua =
     (if startswith_space ua \<or> endswith_space ua then False else control_scan ua)"

text \<open>
  oswe-large-m5a1s120, \<open>tests/test_httpx_compatibility.py\<close>:
  \<^verbatim>\<open>
  def simple_header_validator(ua: str) -> bool:
      if not isinstance(ua, str):
          return False
      if ua.endswith(" ") or ua.startswith(" "):
          return False
      # Disallow control characters \r, \n, \0 per RFC 7230
      if any(ch in ua for ch in ("\r", "\n", "\0")):
          return False
      return True
  \<close>
  The argument is any value of a record.
\<close>

definition simple_header_validator :: "json \<Rightarrow> bool" where
  "simple_header_validator v =
     (case v of
        JStr ua \<Rightarrow>
          (if endswith_space ua \<or> startswith_space ua then False
           else if list_ex (\<lambda>ch. ch \<in> set ua) [13, 10, 0] then False
           else True)
      | _ \<Rightarrow> False)"

section \<open>Sample lines of the data file\<close>

text \<open>
  The examples below run the scripts on a few lines. \<open>sample_loads\<close> and \<open>sample_dumps\<close>
  tabulate what \<open>json.loads\<close> and \<open>json.dumps(..., ensure_ascii=False)\<close> do on them:
  \<^item> \<open>chrome_line\<close> and \<open>chrome_fixed_line\<close> are valid objects, before and after the fix;
  \<^item> \<open>comma_line\<close> has a trailing comma: \<open>json.loads\<close> raises \<open>JSONDecodeError\<close>;
  \<^item> \<open>ls_line\<close> writes U+2028 (LINE SEPARATOR) as its JSON escape, the six ASCII characters
    backslash, u, 2, 0, 2, 8; \<open>json.loads\<close> returns the string with the character itself
    (it does so for \<open>ls_written_line\<close> too), and \<open>json.dumps\<close> with
    \<open>ensure_ascii=False\<close> writes that character as it is (it escapes the quote, the
    backslash and the code points below 0x20 only): \<open>ls_written_line\<close>;
  \<^item> \<open>ls_head\<close> is \<open>ls_written_line\<close> up to U+2028: a string that is never closed, for
    which \<open>json.loads\<close> raises \<open>JSONDecodeError\<close>;
  \<^item> \<open>array_line\<close> is valid JSON but no object: \<open>json.loads\<close> returns the list \<open>[1]\<close>;
  \<^item> \<open>two_objects_line\<close> holds two objects with U+000C (FORM FEED) between them: no JSON
    text, \<open>json.loads\<close> raises \<open>JSONDecodeError\<close> (\<open>Extra data\<close>);
  \<^item> \<open>precise_line\<close> gives \<open>percent\<close> with seventeen digits; the float nearest to it is
    \<open>1.0\<close> (bit pattern \<open>0x3FF0000000000000\<close>), which \<open>json.dumps\<close> writes as \<open>1.0\<close>:
    \<open>rounded_line\<close>.
  A line outside the table is answered like an invalid one; the examples use no such line.
\<close>

definition chrome_line :: pystr where
  \<open>chrome_line = py ''{"useragent": "Mozilla/5.0 Chrome ", "browser": "chrome"}''\<close>

definition chrome_record :: pydict where
  "chrome_record =
     [(useragent, JStr (py ''Mozilla/5.0 Chrome '')), (py ''browser'', JStr (py ''chrome''))]"

definition chrome_fixed_line :: pystr where
  \<open>chrome_fixed_line = py ''{"useragent": "Mozilla/5.0 Chrome", "browser": "chrome"}''\<close>

definition chrome_fixed_record :: pydict where
  "chrome_fixed_record =
     [(useragent, JStr (py ''Mozilla/5.0 Chrome'')), (py ''browser'', JStr (py ''chrome''))]"

definition comma_line :: pystr where
  \<open>comma_line = py ''{"useragent": "X",}''\<close>

definition comma_diag :: pystr where
  "comma_diag = py ''Expecting property name enclosed in double quotes''"

definition ls_line :: pystr where
  \<open>ls_line = py ''{"useragent": "a'' @ [92] @ py ''u2028b"}''\<close>

definition ls_record :: pydict where
  "ls_record = [(useragent, JStr [97, 8232, 98])]"

definition ls_written_line :: pystr where
  \<open>ls_written_line = py ''{"useragent": "a'' @ [8232] @ py ''b"}''\<close>

definition ls_head :: pystr where
  \<open>ls_head = py ''{"useragent": "a''\<close>

definition ls_diag :: pystr where
  "ls_diag = py ''Unterminated string starting at''"

definition array_line :: pystr where
  "array_line = py ''[1]''"

definition two_objects_line :: pystr where
  "two_objects_line = chrome_line @ [12] @ chrome_fixed_line"

definition extra_diag :: pystr where
  "extra_diag = py ''Extra data''"

definition precise_line :: pystr where
  \<open>precise_line = py ''{"useragent": "A", "percent": 1.0000000000000001}''\<close>

definition rounded_line :: pystr where
  \<open>rounded_line = py ''{"useragent": "A", "percent": 1.0}''\<close>

definition percent_record :: pydict where
  "percent_record = [(useragent, JStr (py ''A'')), (py ''percent'', JFloat 0x3FF0000000000000)]"

definition sample_loads :: json_loads where
  "sample_loads line =
     (if line = chrome_line then Inr (JObj chrome_record)
      else if line = chrome_fixed_line then Inr (JObj chrome_fixed_record)
      else if line = ls_line then Inr (JObj ls_record)
      else if line = ls_written_line then Inr (JObj ls_record)
      else if line = array_line then Inr (JArr [JInt 1])
      else if line = precise_line then Inr (JObj percent_record)
      else if line = rounded_line then Inr (JObj percent_record)
      else if line = ls_head then Inl (JSONDecodeError ls_diag)
      else if line = two_objects_line then Inl (JSONDecodeError extra_diag)
      else Inl (JSONDecodeError comma_diag))"

definition sample_dumps :: json_dumps where
  "sample_dumps v =
     (if v = JObj chrome_record then chrome_line
      else if v = JObj chrome_fixed_record then chrome_fixed_line
      else if v = JObj ls_record then ls_written_line
      else if v = JObj percent_record then rounded_line
      else [])"

section \<open>Words for the statements\<close>

text \<open>
  The file whose lines are \<open>ls\<close>, each ended by LF, and a line that holds none of the
  characters at which \<open>str.splitlines()\<close> ends a line (LF and CR among them).
\<close>

definition jsonl :: "pystr list \<Rightarrow> pystr" where
  "jsonl ls = concat (map (\<lambda>l. l @ [10]) ls)"

definition plain_line :: "pystr \<Rightarrow> bool" where
  "plain_line l \<longleftrightarrow> \<not> list_ex is_linebreak l"

text \<open>
  The objects \<open>json.loads\<close> returns for the lines \<open>ls\<close>, in order; a line for which it
  raises, or returns something else than an object, gives none.
\<close>

definition decoded_objects :: "json_loads \<Rightarrow> pystr list \<Rightarrow> pydict list" where
  "decoded_objects loads ls =
     concat (map (\<lambda>l. case loads l of Inr (JObj d) \<Rightarrow> [d] | _ \<Rightarrow> []) ls)"

text \<open>Whether \<open>json.loads\<close> raised \<open>JSONDecodeError\<close>.\<close>

definition is_decode_error :: "loads_error + json \<Rightarrow> bool" where
  "is_decode_error r = (case r of Inl (JSONDecodeError _) \<Rightarrow> True | _ \<Rightarrow> False)"

section \<open>Facts about dictionaries and stripping\<close>

lemma dict_get_setitem:
  "dict_get (dict_setitem d k v) k' = (if k' = k then Some v else dict_get d k')"
  by (induction d) auto

lemma setitem_others:
  "filter (\<lambda>p. fst p \<noteq> k) (dict_setitem d k v) = filter (\<lambda>p. fst p \<noteq> k) d"
  by (induction d) auto

lemma setitem_keys_present:
  "dict_get d k \<noteq> None \<Longrightarrow> map fst (dict_setitem d k v) = map fst d"
  by (induction d) auto

lemma setitem_absent:
  "dict_get d k = None \<Longrightarrow> dict_setitem d k v = d @ [(k, v)]"
  by (induction d) (auto split: if_splits)

lemma fix_loop_eq:
  "fix_loop rs acc n =
     (acc @ map (\<lambda>r. fst (fix_rec r)) rs, n + length (filter (\<lambda>r. snd (fix_rec r)) rs))"
  by (induction rs arbitrary: acc n) (auto split: prod.splits)

lemma rstrip_by_prefix: "prefix (rstrip_by P s) s"
  unfolding rstrip_by_def
  by (metis suffix_dropWhile suffix_to_prefix rev_rev_ident)

lemma rstrip_by_last: "rstrip_by P s \<noteq> [] \<Longrightarrow> \<not> P (last (rstrip_by P s))"
  unfolding rstrip_by_def
  by (metis hd_dropWhile last_rev rev_is_Nil_conv)

lemma rstrip_by_idem: "rstrip_by P (rstrip_by P s) = rstrip_by P s"
  unfolding rstrip_by_def by simp


lemma lstrip_by_hd: "lstrip_by P s \<noteq> [] \<Longrightarrow> \<not> P (hd (lstrip_by P s))"
  unfolding lstrip_by_def by (simp add: hd_dropWhile)

lemma lstrip_by_suffix: "suffix (lstrip_by P s) s"
  unfolding lstrip_by_def by (rule suffix_dropWhile)

lemmas sample_defs = chrome_line_def chrome_record_def chrome_fixed_line_def
  chrome_fixed_record_def comma_line_def comma_diag_def ls_line_def ls_record_def
  ls_written_line_def ls_head_def ls_diag_def array_line_def two_objects_line_def
  extra_diag_def precise_line_def
  rounded_line_def percent_record_def sample_loads_def sample_dumps_def

lemmas file_defs = fix_file_def load_jsonl_def fix_browsers_json_def write_utf8_def
  is_surrogate_def is_linebreak_def

lemmas eval_defs = py_def useragent_def dict_get_default_def str_strip_def str_rstrip_def
  rstrip_space_def strip_spaces_def lstrip_by_def rstrip_by_def py_isspace_def is_space_def
  endswith_space_def startswith_space_def fix_rec_def clean_record_def fix_step_def
  fix_useragents_def

section \<open>Facts about the normalizers\<close>

lemma fix_useragents_eq:
  "fix_useragents rs =
     (map (\<lambda>r. fst (fix_rec r)) rs, length (filter (\<lambda>r. snd (fix_rec r)) rs))"
  by (simp add: fix_useragents_def fix_loop_eq)

lemma fix_rec_string:
  assumes "dict_get r useragent = Some (JStr ua)"
  shows "fix_rec r =
           (if rstrip_space ua \<noteq> ua then dict_setitem r useragent (JStr (rstrip_space ua)) else r,
            rstrip_space ua \<noteq> ua)"
  using assms by (simp add: fix_rec_def Let_def)

lemma fix_rec_string_value:
  assumes "dict_get r useragent = Some (JStr ua)"
  shows "dict_get (fst (fix_rec r)) useragent = Some (JStr (rstrip_space ua))"
  using assms by (auto simp: fix_rec_def Let_def dict_get_setitem)

lemma clean_record_string:
  assumes "dict_get r useragent = Some (JStr ua)"
  shows "clean_record r =
           Inr (dict_setitem r useragent (JStr (str_strip ua)), str_strip ua \<noteq> ua)"
  using assms by (simp add: clean_record_def dict_get_default_def Let_def)

lemma fix_step_string:
  assumes "dict_get r useragent = Some (JStr ua)"
  shows "fix_step r =
           Inr (if endswith_space ua then dict_setitem r useragent (JStr (str_rstrip ua)) else r,
                endswith_space ua)"
  using assms by (simp add: fix_step_def dict_get_default_def)


lemma not_endswith_rstrip_by: "P 32 \<Longrightarrow> \<not> endswith_space (rstrip_by P s)"
  using rstrip_by_last [of P s] by (auto simp: endswith_space_def)

lemma fix_rec_output_no_trailing:
  "dict_get (fst (fix_rec r)) useragent = Some (JStr ua) \<Longrightarrow> \<not> endswith_space ua"
proof (cases "dict_get r useragent")
  case None
  then show "dict_get (fst (fix_rec r)) useragent = Some (JStr ua) \<Longrightarrow> ?thesis"
    by (simp add: fix_rec_def)
next
  case (Some v)
  show "dict_get (fst (fix_rec r)) useragent = Some (JStr ua) \<Longrightarrow> ?thesis"
  proof (cases v)
    case (JStr ua0)
    assume "dict_get (fst (fix_rec r)) useragent = Some (JStr ua)"
    with Some JStr have "ua = rstrip_space ua0"
      by (simp add: fix_rec_string_value)
    then show ?thesis
      by (simp add: rstrip_space_def not_endswith_rstrip_by is_space_def)
  qed (use Some in \<open>simp_all add: fix_rec_def\<close>)
qed

lemma fix_step_output_no_trailing:
  assumes "fix_step r = Inr (r', c)" and "dict_get r' useragent = Some (JStr ua)"
  shows "\<not> endswith_space ua"
proof (cases "dict_get r useragent")
  case None
  with assms show ?thesis
    by (simp add: fix_step_def dict_get_default_def endswith_space_def)
next
  case (Some v)
  show ?thesis
  proof (cases v)
    case (JStr ua0)
    with Some assms have "ua = (if endswith_space ua0 then str_rstrip ua0 else ua0)"
      by (auto simp: fix_step_string dict_get_setitem split: if_splits)
    then show ?thesis
      by (simp add: str_rstrip_def not_endswith_rstrip_by py_isspace_def)
  qed (use Some assms in \<open>simp_all add: fix_step_def dict_get_default_def\<close>)
qed

lemma fix_rec_flag:
  "snd (fix_rec r) \<longleftrightarrow> (\<exists>ua. dict_get r useragent = Some (JStr ua) \<and> rstrip_space ua \<noteq> ua)"
  by (auto simp: fix_rec_def Let_def split: option.splits json.splits)

lemma fix_useragents_count:
  "snd (fix_useragents rs) =
     length (filter (\<lambda>r. \<exists>ua. dict_get r useragent = Some (JStr ua) \<and> rstrip_space ua \<noteq> ua) rs)"
  by (simp add: fix_useragents_eq fix_rec_flag)


lemma fix_rec_not_string:
  "\<forall>ua. dict_get r useragent \<noteq> Some (JStr ua) \<Longrightarrow> fix_rec r = (r, False)"
  by (auto simp: fix_rec_def split: option.splits json.splits)

lemma clean_record_absent:
  "dict_get r useragent = None \<Longrightarrow> clean_record r = Inr (r @ [(useragent, JStr [])], False)"
  by (simp add: clean_record_def dict_get_default_def setitem_absent eval_defs)

lemma dict_get_None_filter:
  "dict_get r k = None \<Longrightarrow> filter (\<lambda>p. fst p \<noteq> k) r = r"
  by (induction r) (auto split: if_splits)

lemma clean_record_not_string:
  "dict_get r useragent = Some v \<Longrightarrow> \<forall>ua. v \<noteq> JStr ua \<Longrightarrow> clean_record r = Inl AttributeError"
  by (cases v) (simp_all add: clean_record_def dict_get_default_def)

lemma fix_rec_others:
  "filter (\<lambda>p. fst p \<noteq> useragent) (fst (fix_rec r)) = filter (\<lambda>p. fst p \<noteq> useragent) r"
  by (auto simp: fix_rec_def Let_def setitem_others split: option.splits json.splits)

lemma fix_rec_keys: "map fst (fst (fix_rec r)) = map fst r"
  by (auto simp: fix_rec_def Let_def setitem_keys_present split: option.splits json.splits)

lemma dict_get_filter_other:
  "k \<noteq> k' \<Longrightarrow> dict_get (filter (\<lambda>p. fst p \<noteq> k') d) k = dict_get d k"
  by (induction d) auto

lemma others_imp_lookup:
  assumes "filter (\<lambda>p. fst p \<noteq> k') d' = filter (\<lambda>p. fst p \<noteq> k') d" and "k \<noteq> k'"
  shows "dict_get d' k = dict_get d k"
  using assms dict_get_filter_other [of k k' d] dict_get_filter_other [of k k' d'] by simp

lemma clean_record_others:
  assumes "clean_record r = Inr (r', c)"
  shows "filter (\<lambda>p. fst p \<noteq> useragent) r' = filter (\<lambda>p. fst p \<noteq> useragent) r"
  using assms
  by (auto simp: clean_record_def Let_def setitem_others split: json.splits)

lemma clean_record_keys:
  assumes "clean_record r = Inr (r', c)" and "dict_get r useragent \<noteq> None"
  shows "map fst r' = map fst r"
  using assms
  by (auto simp: clean_record_def Let_def setitem_keys_present split: json.splits)

lemma control_scan_iff: "control_scan ua \<longleftrightarrow> (\<forall>ch\<in>set ua. \<not> (ch < 32 \<or> ch = 127))"
  by (induction ua) auto

lemma rstrip_by_sublist: "sublist (rstrip_by P s) s"
  by (rule prefix_imp_sublist [OF rstrip_by_prefix])

lemma str_strip_sublist: "sublist (str_strip s) s"
  unfolding str_strip_def sublist_altdef'
  using lstrip_by_suffix rstrip_by_prefix by blast

lemma fix_rec_idem: "fix_rec (fst (fix_rec r)) = (fst (fix_rec r), False)"
proof (cases "\<exists>ua. dict_get r useragent = Some (JStr ua)")
  case True
  then obtain ua where ua: "dict_get r useragent = Some (JStr ua)" by blast
  then have "dict_get (fst (fix_rec r)) useragent = Some (JStr (rstrip_space ua))"
    by (rule fix_rec_string_value)
  then show ?thesis
    by (simp add: fix_rec_string rstrip_space_def rstrip_by_idem)
next
  case False
  then have "fix_rec r = (r, False)"
    by (simp add: fix_rec_not_string)
  then show ?thesis by simp
qed

lemma lstrip_by_id: "s = [] \<or> \<not> P (hd s) \<Longrightarrow> lstrip_by P s = s"
  by (cases s) (auto simp: lstrip_by_def)

lemma hd_rstrip_by: "rstrip_by P s \<noteq> [] \<Longrightarrow> hd (rstrip_by P s) = hd s"
proof -
  assume ne: "rstrip_by P s \<noteq> []"
  obtain zs where "s = rstrip_by P s @ zs"
    using rstrip_by_prefix [of P s] by (auto simp: prefix_def)
  then have "hd s = hd (rstrip_by P s @ zs)" by simp
  also have "\<dots> = hd (rstrip_by P s)" using ne by simp
  finally show ?thesis by simp
qed

lemma str_strip_idem: "str_strip (str_strip s) = str_strip s"
proof -
  let ?l = "lstrip_by py_isspace s"
  have "rstrip_by py_isspace ?l = [] \<or> \<not> py_isspace (hd (rstrip_by py_isspace ?l))"
  proof (cases "rstrip_by py_isspace ?l = []")
    case False
    then have "?l \<noteq> []" by (auto simp: rstrip_by_def)
    then have "\<not> py_isspace (hd ?l)" by (rule lstrip_by_hd)
    with False show ?thesis by (simp add: hd_rstrip_by)
  qed simp
  then have "lstrip_by py_isspace (rstrip_by py_isspace ?l) = rstrip_by py_isspace ?l"
    by (rule lstrip_by_id)
  then show ?thesis
    by (simp add: str_strip_def rstrip_by_idem)
qed

lemma dict_setitem_twice: "dict_setitem (dict_setitem d k v) k w = dict_setitem d k w"
  by (induction d) auto

lemma clean_record_idem:
  assumes "clean_record r = Inr (r', c)"
  shows "clean_record r' = Inr (r', False)"
proof (cases "dict_get r useragent")
  case None
  with assms have r': "r' = r @ [(useragent, JStr [])]"
    by (simp add: clean_record_absent)
  have "dict_get r' useragent = Some (JStr [])"
    unfolding r' using None by (induction r) (auto split: if_splits)
  moreover have "dict_setitem r' useragent (JStr []) = r'"
    unfolding r' using None by (induction r) (auto split: if_splits)
  ultimately show ?thesis
    by (simp add: clean_record_string str_strip_def lstrip_by_def rstrip_by_def)
next
  case (Some v)
  show ?thesis
  proof (cases v)
    case (JStr ua)
    with Some assms have r': "r' = dict_setitem r useragent (JStr (str_strip ua))"
      by (simp add: clean_record_string)
    then have "dict_get r' useragent = Some (JStr (str_strip ua))"
      by (simp add: dict_get_setitem)
    then show ?thesis
      by (simp add: clean_record_string str_strip_idem r' dict_setitem_twice)
  qed (use Some assms in \<open>simp_all add: clean_record_def dict_get_default_def\<close>)
qed


section \<open>Facts about the loops\<close>

text \<open>
  What a loop that returns has done, told by the objects decoded from the non-blank lines:
  \<open>steps\<close> lists, for each of them in order, the record the normalizer returned and
  whether it was counted.
\<close>

lemma decoded_objects_Nil [simp]: "decoded_objects loads [] = []"
  by (simp add: decoded_objects_def)

lemma decoded_objects_Cons:
  "decoded_objects loads (l # ls) =
     (case loads l of Inr (JObj d) \<Rightarrow> [d] | _ \<Rightarrow> []) @ decoded_objects loads ls"
  by (simp add: decoded_objects_def)

lemma decoded_objects_append:
  "decoded_objects loads (xs @ ys) = decoded_objects loads xs @ decoded_objects loads ys"
  by (simp add: decoded_objects_def)

lemma step_of_object:
  assumes "map Inr steps = map f ds" and "p \<in> set steps"
  shows "\<exists>d\<in>set ds. f d = Inr p"
proof -
  have "Inr p \<in> Inr ` set steps" using assms(2) by (rule imageI)
  also have "Inr ` set steps = set (map Inr steps)" by simp
  also have "\<dots> = set (map f ds)" by (simp only: assms(1))
  also have "\<dots> = f ` set ds" by simp
  finally show ?thesis by auto
qed

lemma steps_nth:
  assumes "map Inr steps = map f ds"
  shows "length steps = length ds" and "i < length ds \<Longrightarrow> f (ds ! i) = Inr (steps ! i)"
proof -
  from assms show len: "length steps = length ds" by (rule map_eq_imp_length_eq)
  assume i: "i < length ds"
  then have "f (ds ! i) = map f ds ! i" by simp
  also have "\<dots> = map Inr steps ! i" by (simp only: assms)
  also have "\<dots> = Inr (steps ! i)" using i len by simp
  finally show "f (ds ! i) = Inr (steps ! i)" .
qed

lemma fix_browsers_loop_steps:
  "fix_browsers_loop loads dumps lines acc st = Inr (out, st') \<Longrightarrow>
   \<exists>steps.
     map Inr steps =
       map fix_step (decoded_objects loads (filter (\<lambda>l. l \<noteq> []) (map str_strip lines))) \<and>
     out = acc @ map (\<lambda>p. dumps (JObj (fst p))) steps \<and>
     total_uas st' = total_uas st + length steps \<and>
     fixed_uas st' = fixed_uas st + length (filter snd steps) \<and>
     unchanged_uas st' = unchanged_uas st + length (filter (\<lambda>p. \<not> snd p) steps) \<and>
     errors st' = errors st +
       length (filter (\<lambda>l. l \<noteq> [] \<and> is_decode_error (loads l)) (map str_strip lines))"
proof (induction lines arbitrary: acc st)
  case Nil
  then show ?case by (intro exI [of _ "[]"]) simp
next
  case (Cons l ls)
  show ?case
  proof (cases "str_strip l = []")
    case True
    with Cons.prems have "fix_browsers_loop loads dumps ls acc st = Inr (out, st')" by simp
    from Cons.IH [OF this] True show ?thesis by simp
  next
    case False
    show ?thesis
    proof (cases "loads (str_strip l)")
      case (Inl e)
      show ?thesis
      proof (cases e)
        case (JSONDecodeError m)
        with False Inl Cons.prems have
          "fix_browsers_loop loads dumps ls acc (st\<lparr>errors := errors st + 1\<rparr>) = Inr (out, st')"
          by simp
        from Cons.IH [OF this] obtain steps where
          "map Inr steps =
             map fix_step (decoded_objects loads (filter (\<lambda>l. l \<noteq> []) (map str_strip ls)))"
          "out = acc @ map (\<lambda>p. dumps (JObj (fst p))) steps"
          "total_uas st' = total_uas st + length steps"
          "fixed_uas st' = fixed_uas st + length (filter snd steps)"
          "unchanged_uas st' = unchanged_uas st + length (filter (\<lambda>p. \<not> snd p) steps)"
          "errors st' = errors st + 1 +
             length (filter (\<lambda>l. l \<noteq> [] \<and> is_decode_error (loads l)) (map str_strip ls))"
          by auto
        with False Inl JSONDecodeError show ?thesis
          by (intro exI [of _ steps]) (simp add: decoded_objects_Cons is_decode_error_def)
      next
        case (OtherException m)
        with False Inl Cons.prems show ?thesis by simp
      qed
    next
      case (Inr v)
      show ?thesis
      proof (cases v)
        case (JObj data)
        show ?thesis
        proof (cases "fix_step data")
          case (Inl e)
          with False Inr JObj Cons.prems show ?thesis by simp
        next
          case step: (Inr p)
          obtain data' fixed where p: "p = (data', fixed)" by (cases p)
          let ?st1 = "if fixed
            then st\<lparr>total_uas := total_uas st + 1, fixed_uas := fixed_uas st + 1\<rparr>
            else st\<lparr>total_uas := total_uas st + 1, unchanged_uas := unchanged_uas st + 1\<rparr>"
          from False Inr JObj step p Cons.prems have
            "fix_browsers_loop loads dumps ls (acc @ [dumps (JObj data')]) ?st1 = Inr (out, st')"
            by simp
          from Cons.IH [OF this] obtain steps where s:
            "map Inr steps =
               map fix_step (decoded_objects loads (filter (\<lambda>l. l \<noteq> []) (map str_strip ls)))"
            "out = (acc @ [dumps (JObj data')]) @ map (\<lambda>p. dumps (JObj (fst p))) steps"
            "total_uas st' = total_uas ?st1 + length steps"
            "fixed_uas st' = fixed_uas ?st1 + length (filter snd steps)"
            "unchanged_uas st' = unchanged_uas ?st1 + length (filter (\<lambda>p. \<not> snd p) steps)"
            "errors st' = errors ?st1 +
               length (filter (\<lambda>l. l \<noteq> [] \<and> is_decode_error (loads l)) (map str_strip ls))"
            by auto
          with False Inr JObj step p show ?thesis
            by (intro exI [of _ "(data', fixed) # steps"])
               (simp add: decoded_objects_Cons is_decode_error_def)
        qed
      qed (use False Inr Cons.prems in simp_all)
    qed
  qed
qed

lemma fix_browsers_loop_lines:
  assumes "fix_browsers_loop loads dumps lines acc st = Inr (out, st')"
  shows "\<exists>ds. out = acc @ map (\<lambda>d. dumps (JObj d)) ds \<and>
        (\<forall>d\<in>set ds. \<forall>ua. dict_get d useragent = Some (JStr ua) \<longrightarrow> \<not> endswith_space ua)"
proof -
  from fix_browsers_loop_steps [OF assms] obtain steps where
    m: "map Inr steps =
       map fix_step (decoded_objects loads (filter (\<lambda>l. l \<noteq> []) (map str_strip lines)))"
    and out: "out = acc @ map (\<lambda>p. dumps (JObj (fst p))) steps"
    by blast
  have "\<forall>ua. dict_get (fst p) useragent = Some (JStr ua) \<longrightarrow> \<not> endswith_space ua"
    if "p \<in> set steps" for p
  proof -
    from step_of_object [OF m that] obtain d where "fix_step d = Inr p" by blast
    then have "fix_step d = Inr (fst p, snd p)" by simp
    then show ?thesis using fix_step_output_no_trailing by blast
  qed
  with out show ?thesis
    by (intro exI [of _ "map fst steps"]) (simp add: comp_def)
qed



lemma fix_file_loop_steps:
  "fix_file_loop loads lines idx records n = Inr (records', n') \<Longrightarrow>
   \<exists>steps.
     map Inr steps =
       map clean_record (decoded_objects loads (filter (\<lambda>l. str_strip l \<noteq> []) lines)) \<and>
     records' = records @ map fst steps \<and>
     n' = n + length (filter snd steps)"
proof (induction lines arbitrary: idx records n)
  case Nil
  then show ?case by (intro exI [of _ "[]"]) simp
next
  case (Cons l ls)
  show ?case
  proof (cases "str_strip l = []")
    case True
    with Cons.prems have "fix_file_loop loads ls (idx + 1) records n = Inr (records', n')" by simp
    from Cons.IH [OF this] True show ?thesis by simp
  next
    case False
    from False Cons.prems obtain d rec c where
      l: "loads l = Inr (JObj d)" and step: "clean_record d = Inr (rec, c)" and
      run: "fix_file_loop loads ls (idx + 1) (records @ [rec]) (if c then n + 1 else n) =
              Inr (records', n')"
      by (auto split: sum.splits json.splits prod.splits loads_error.splits)
    from Cons.IH [OF run] obtain steps where
      "map Inr steps =
         map clean_record (decoded_objects loads (filter (\<lambda>l. str_strip l \<noteq> []) ls))"
      "records' = (records @ [rec]) @ map fst steps"
      "n' = (if c then n + 1 else n) + length (filter snd steps)"
      by auto
    with False l step show ?thesis
      by (intro exI [of _ "(rec, c) # steps"]) (simp add: decoded_objects_Cons)
  qed
qed

lemma fix_file_steps:
  assumes "fix_file loads dumps source = Inr (written, n_total, n_fixed, n_unchanged)"
  shows "\<exists>content steps. source = Some content \<and>
     map Inr steps =
       map clean_record (decoded_objects loads
         (filter (\<lambda>l. str_strip l \<noteq> []) (splitlines content))) \<and>
     written = concat (map (\<lambda>p. dumps (JObj (fst p)) @ [10]) steps) \<and>
     n_total = length steps \<and>
     n_fixed = length (filter snd steps) \<and>
     n_unchanged = n_total - n_fixed"
proof -
  from assms obtain content records where
    c: "source = Some content" and
    loop: "fix_file_loop loads (splitlines content) 1 [] 0 = Inr (records, n_fixed)" and
    w: "written = concat (map (\<lambda>record. dumps (JObj record) @ [10]) records)" and
    t: "n_total = length records" and u: "n_unchanged = length records - n_fixed"
    by (auto simp: fix_file_def write_utf8_def
             split: option.splits sum.splits prod.splits if_splits)
  from fix_file_loop_steps [OF loop] obtain steps where
    m: "map Inr steps =
       map clean_record (decoded_objects loads
         (filter (\<lambda>l. str_strip l \<noteq> []) (splitlines content)))" and
    r: "records = map fst steps" and f: "n_fixed = length (filter snd steps)"
    by auto
  from c m w t u r f show ?thesis
    by (intro exI [of _ content] exI [of _ steps]) (simp add: comp_def)
qed


lemma load_loop_all_decoded:
  assumes "\<forall>l\<in>set lines. str_strip l = [] \<or> (\<exists>v. loads l = Inr v)"
  shows "\<exists>vs. load_loop loads lines idx data = Inr (data @ vs) \<and>
              map Inr vs = map loads (filter (\<lambda>l. str_strip l \<noteq> []) lines)"
  using assms
proof (induction lines arbitrary: idx data)
  case Nil
  then show ?case by simp
next
  case (Cons l ls)
  have IH: "\<exists>vs. load_loop loads ls i d = Inr (d @ vs) \<and>
              map Inr vs = map loads (filter (\<lambda>l. str_strip l \<noteq> []) ls)" for i d
    using Cons.IH Cons.prems by simp
  show ?case
  proof (cases "str_strip l = []")
    case True
    with IH [of "idx + 1" data] show ?thesis by simp
  next
    case False
    with Cons.prems obtain v where v: "loads l = Inr v" by auto
    from IH [of "idx + 1" "data @ [v]"] obtain vs where
      "load_loop loads ls (idx + 1) (data @ [v]) = Inr ((data @ [v]) @ vs)"
      "map Inr vs = map loads (filter (\<lambda>l. str_strip l \<noteq> []) ls)"
      by blast
    with False v show ?thesis
      by (intro exI [of _ "v # vs"]) simp
  qed
qed

text \<open>
  A file whose lines end with LF and hold no other line boundary is cut into these lines,
  by \<open>splitlines\<close> without the LF and by \<open>readlines\<close> with it; \<open>str.strip()\<close> removes
  the LF again.
\<close>

lemma splitlines_line:
  "plain_line l \<Longrightarrow> splitlines (l @ 10 # rest) = l # splitlines rest"
proof (induction l)
  case Nil
  then show ?case by (cases rest) (simp_all add: is_linebreak_def)
next
  case (Cons c l)
  then have c: "\<not> is_linebreak c" and IH: "splitlines (l @ 10 # rest) = l # splitlines rest"
    by (simp_all add: plain_line_def)
  obtain d s where ds: "l @ 10 # rest = d # s" by (cases "l @ 10 # rest") simp_all
  from c have "c \<noteq> 13" by (auto simp: is_linebreak_def)
  with c IH ds show ?case by simp
qed

lemma splitlines_jsonl: "\<forall>l\<in>set ls. plain_line l \<Longrightarrow> splitlines (jsonl ls) = ls"
  by (induction ls) (simp_all add: jsonl_def splitlines_line)










lemma fix_browsers_loop_prefix:
  assumes "\<forall>l\<in>set pre. str_strip l = [] \<or> is_decode_error (loads (str_strip l)) \<or>
             (\<exists>d p. loads (str_strip l) = Inr (JObj d) \<and> fix_step d = Inr p)"
  shows "\<exists>acc' st'. \<forall>rest. fix_browsers_loop loads dumps (pre @ rest) acc st =
                         fix_browsers_loop loads dumps rest acc' st'"
  using assms
proof (induction pre arbitrary: acc st)
  case Nil
  show ?case by auto
next
  case (Cons l pre)
  have IH: "\<exists>acc' st'. \<forall>rest. fix_browsers_loop loads dumps (pre @ rest) a s =
                         fix_browsers_loop loads dumps rest acc' st'" for a s
    using Cons.IH Cons.prems by simp
  show ?case
  proof (cases "str_strip l = []")
    case True
    with IH [of acc st] show ?thesis by simp
  next
    case False
    with Cons.prems consider
      (bad) m where "loads (str_strip l) = Inl (JSONDecodeError m)" |
      (obj) d rec c where "loads (str_strip l) = Inr (JObj d)" "fix_step d = Inr (rec, c)"
      by (auto simp: is_decode_error_def split: sum.splits loads_error.splits)
    then show ?thesis
    proof cases
      case bad
      with False IH [of acc "st\<lparr>errors := errors st + 1\<rparr>"] show ?thesis by simp
    next
      case obj
      with False IH [of "acc @ [dumps (JObj rec)]"
          "if c then st\<lparr>total_uas := total_uas st + 1, fixed_uas := fixed_uas st + 1\<rparr>
           else st\<lparr>total_uas := total_uas st + 1, unchanged_uas := unchanged_uas st + 1\<rparr>"]
      show ?thesis by simp
    qed
  qed
qed

lemma earlier_lines:
  assumes "i < length lines" and "\<forall>j<i. P (lines ! j)"
  shows "\<forall>l\<in>set (take i lines). P l"
  using assms by (auto simp: in_set_conv_nth)

lemma split_at_line:
  "i < length lines \<Longrightarrow> lines = take i lines @ lines ! i # drop (Suc i) lines"
  by (simp add: id_take_nth_drop)



lemma fix_browsers_loop_at:
  assumes i: "i < length lines"
    and pre: "\<forall>j<i. str_strip (lines ! j) = [] \<or> is_decode_error (loads (str_strip (lines ! j))) \<or>
                (\<exists>d p. loads (str_strip (lines ! j)) = Inr (JObj d) \<and> fix_step d = Inr p)"
  shows "\<exists>acc' st'. fix_browsers_loop loads dumps lines acc st =
           fix_browsers_loop loads dumps (lines ! i # drop (Suc i) lines) acc' st'"
proof -
  have "\<forall>l\<in>set (take i lines). str_strip l = [] \<or> is_decode_error (loads (str_strip l)) \<or>
          (\<exists>d p. loads (str_strip l) = Inr (JObj d) \<and> fix_step d = Inr p)"
    using i pre by (rule earlier_lines)
  from fix_browsers_loop_prefix [OF this, of dumps acc st] obtain acc' st' where
    "fix_browsers_loop loads dumps (take i lines @ lines ! i # drop (Suc i) lines) acc st =
       fix_browsers_loop loads dumps (lines ! i # drop (Suc i) lines) acc' st'"
    by blast
  then have "fix_browsers_loop loads dumps lines acc st =
       fix_browsers_loop loads dumps (lines ! i # drop (Suc i) lines) acc' st'"
    using split_at_line [OF i] by simp
  then show ?thesis by blast
qed






section \<open>What the normalizers store (C1)\<close>




section \<open>White space left in the output (C2)\<close>

text \<open>
  C2, as the specification has it: in every record the fix writes, \<open>useragent\<close> has no
  leading space, no trailing space and no two spaces in a row.

  \<open>fix_useragents\<close> and \<open>fix_browsers_json\<close> remove trailing characters only: the record
  \<open>{"useragent": " A  B "}\<close> leaves both with \<open>" A  B"\<close>, which starts with a space and holds
  two spaces in a row.
\<close>

theorem output_keeps_inner_spaces:
  "fix_useragents [[(useragent, JStr (py '' A  B ''))]] =
     ([[(useragent, JStr (py '' A  B''))]], 1) \<and>
   fix_step [(useragent, JStr (py '' A  B ''))] = Inr ([(useragent, JStr (py '' A  B''))], True) \<and>
   startswith_space (py '' A  B'') \<and> has_double_space (py '' A  B'')"
  by (simp add: eval_defs)

text \<open>
  C2, as the scripts have it: in every record \<open>fix_useragents\<close> returns, and in every record
  \<open>fix_browsers_json\<close> serializes into the file it writes, a \<open>useragent\<close> that is a string
  does not end with a space.
\<close>

theorem output_no_trailing_space:
  "(\<forall>r'\<in>set (fst (fix_useragents rs)). \<forall>ua.
       dict_get r' useragent = Some (JStr ua) \<longrightarrow> \<not> endswith_space ua) \<and>
   (\<forall>written st. fix_browsers_json loads dumps original = Inr (written, st) \<longrightarrow>
      (\<exists>ds. written = join_lines (map (\<lambda>d. dumps (JObj d)) ds) \<and>
        (\<forall>d\<in>set ds. \<forall>ua. dict_get d useragent = Some (JStr ua) \<longrightarrow> \<not> endswith_space ua)))"
proof (intro conjI allI impI ballI)
  fix r' ua
  assume "r' \<in> set (fst (fix_useragents rs))" and "dict_get r' useragent = Some (JStr ua)"
  then show "\<not> endswith_space ua"
    by (auto simp: fix_useragents_eq dest: fix_rec_output_no_trailing)
next
  fix written st
  assume run: "fix_browsers_json loads dumps original = Inr (written, st)"
  then obtain content fixed_lines where
    loop: "fix_browsers_loop loads dumps (readlines content) []
             \<lparr>total_uas = 0, fixed_uas = 0, unchanged_uas = 0, errors = 0\<rparr> = Inr (fixed_lines, st)"
    and w: "written = join_lines fixed_lines"
    by (auto simp: fix_browsers_json_def write_utf8_def
             split: option.splits sum.splits prod.splits if_splits)
  from fix_browsers_loop_lines [OF loop] w
  show "\<exists>ds. written = join_lines (map (\<lambda>d. dumps (JObj d)) ds) \<and>
        (\<forall>d\<in>set ds. \<forall>ua. dict_get d useragent = Some (JStr ua) \<longrightarrow> \<not> endswith_space ua)"
    by auto
qed

theorem output_no_trailing_space_witness:
  "fst (fix_useragents [[(useragent, JStr (py ''A ''))]]) = [[(useragent, JStr (py ''A''))]] \<and>
   \<not> endswith_space (py ''A'')"
  using output_no_trailing_space [THEN conjunct1, of "[[(useragent, JStr (py ''A ''))]]"]
  by (simp add: eval_defs)

section \<open>A line that is not valid JSON (C3)\<close>




section \<open>Running the fix on its own output (C4)\<close>

text \<open>
  On the decoded records a second pass changes nothing: \<open>fix_useragents\<close> returns its own
  output with a count of 0, and \<open>_clean_record\<close> returns its own output with
  \<open>changed = False\<close>.
\<close>

lemma second_pass_changes_nothing:
  "fix_useragents (fst (fix_useragents rs)) = (fst (fix_useragents rs), 0) \<and>
   (\<forall>r' c. clean_record r = Inr (r', c) \<longrightarrow> clean_record r' = Inr (r', False))"
proof (intro conjI allI impI)
  have "map (\<lambda>r. fst (fix_rec r)) (map (\<lambda>r. fst (fix_rec r)) rs) = map (\<lambda>r. fst (fix_rec r)) rs"
    by (simp add: fix_rec_idem)
  moreover have "filter (\<lambda>r. snd (fix_rec r)) (map (\<lambda>r. fst (fix_rec r)) rs) = []"
    by (simp add: filter_empty_conv fix_rec_idem)
  ultimately show "fix_useragents (fst (fix_useragents rs)) = (fst (fix_useragents rs), 0)"
    by (simp add: fix_useragents_eq)
next
  fix r' c
  assume "clean_record r = Inr (r', c)"
  then show "clean_record r' = Inr (r', False)"
    by (rule clean_record_idem)
qed

text \<open>
  On the files, a second run of \<open>fix_file\<close> depends on reading back what the first one
  wrote. When every record written comes out of \<open>json.dumps\<close> as a non-blank line without
  a line boundary of \<open>splitlines\<close> and without a surrogate, and \<open>json.loads\<close> returns the
  record for it, the second run writes the same file and returns \<open>fixed_count = 0\<close>.
\<close>

lemma fix_file_loop_outputs:
  "fix_file_loop loads lines idx records n = Inr (records', n') \<Longrightarrow>
   \<forall>r\<in>set records. clean_record r = Inr (r, False) \<Longrightarrow>
   \<forall>r\<in>set records'. clean_record r = Inr (r, False)"
proof (induction lines arbitrary: idx records n)
  case Nil
  then show ?case by simp
next
  case (Cons l ls)
  show ?case
  proof (cases "str_strip l = []")
    case True
    with Cons show ?thesis by simp
  next
    case False
    from False Cons.prems(1) obtain d rec c m where
      step: "clean_record d = Inr (rec, c)" and
      run: "fix_file_loop loads ls (idx + 1) (records @ [rec]) m = Inr (records', n')"
      by (auto split: sum.splits json.splits prod.splits loads_error.splits)
    have "\<forall>r\<in>set (records @ [rec]). clean_record r = Inr (r, False)"
      using Cons.prems(2) clean_record_idem [OF step] by simp
    from Cons.IH [OF run this] show ?thesis .
  qed
qed

lemma fix_file_loop_reread:
  assumes "\<forall>r\<in>set rs. str_strip (dumps (JObj r)) \<noteq> [] \<and> loads (dumps (JObj r)) = Inr (JObj r) \<and>
             clean_record r = Inr (r, False)"
  shows "fix_file_loop loads (map (\<lambda>r. dumps (JObj r)) rs) idx records n = Inr (records @ rs, n)"
  using assms by (induction rs arbitrary: idx records n) simp_all

lemma second_run_when_reread:
  assumes loop: "fix_file_loop loads (splitlines src) 1 [] 0 = Inr (records, fixed_count)"
    and codec: "\<forall>r\<in>set records.
                  plain_line (dumps (JObj r)) \<and> \<not> list_ex is_surrogate (dumps (JObj r)) \<and>
                  str_strip (dumps (JObj r)) \<noteq> [] \<and> loads (dumps (JObj r)) = Inr (JObj r)"
  shows "\<exists>written.
           fix_file loads dumps (Some src) =
             Inr (written, length records, fixed_count, length records - fixed_count) \<and>
           fix_file loads dumps (Some written) = Inr (written, length records, 0, length records)"
proof -
  let ?lines = "map (\<lambda>r. dumps (JObj r)) records"
  let ?written = "concat (map (\<lambda>record. dumps (JObj record) @ [10]) records)"
  have ok: "\<not> list_ex is_surrogate ?written"
    using codec by (auto simp: list_ex_iff is_surrogate_def)
  have first: "fix_file loads dumps (Some src) =
      Inr (?written, length records, fixed_count, length records - fixed_count)"
    using loop ok by (simp add: fix_file_def write_utf8_def)
  have clean: "\<forall>r\<in>set records. clean_record r = Inr (r, False)"
    using fix_file_loop_outputs [OF loop] by simp
  have eq: "?written = jsonl ?lines"
    by (simp add: jsonl_def comp_def)
  have "splitlines (jsonl ?lines) = ?lines"
    by (rule splitlines_jsonl) (use codec in simp)
  then have split: "splitlines ?written = ?lines"
    by (simp only: eq)
  have "fix_file_loop loads ?lines 1 [] 0 = Inr ([] @ records, 0)"
    by (rule fix_file_loop_reread) (use codec clean in simp)
  then have "fix_file loads dumps (Some ?written) = Inr (?written, length records, 0, length records)"
    using ok split by (simp add: fix_file_def write_utf8_def)
  with first show ?thesis by blast
qed

lemma second_run_on_sample:
  "fix_file sample_loads sample_dumps (Some (chrome_line @ [10])) =
     Inr (chrome_fixed_line @ [10], 1, 1, 0) \<and>
   fix_file sample_loads sample_dumps (Some (chrome_fixed_line @ [10])) =
     Inr (chrome_fixed_line @ [10], 1, 0, 1)"
  by (simp add: file_defs eval_defs sample_defs)

text \<open>
  C4: running the fix a second time, on its own output, yields \<open>fixed_count = 0\<close> and the
  same \<open>useragent\<close> values.

  \<open>fix_file\<close> does not always get that far. It writes with \<open>ensure_ascii=False\<close>, which
  leaves U+2028 as it is, and reads with \<open>str.splitlines()\<close>, which ends a line there. On
  the one-line file \<open>ls_line\<close> the first run returns \<open>(1, 0, 1)\<close> and writes
  \<open>ls_written_line\<close>; the second run, on that file, raises \<open>ValueError\<close> for line 1.
\<close>

theorem second_run_fails_on_line_separator:
  "fix_file sample_loads sample_dumps (Some ls_line) = Inr (ls_written_line @ [10], 1, 0, 1) \<and>
   fix_file sample_loads sample_dumps (Some (ls_written_line @ [10])) = Inl (ValueError 1 ls_diag)"
  by (simp add: file_defs eval_defs sample_defs)

section \<open>A record without a string to strip (C5)\<close>

text \<open>
  C5, as the specification has it: a record whose \<open>useragent\<close> is absent or not a string
  comes back unchanged, with no key added or removed, with \<open>changed = False\<close> and without an
  error.

  \<open>_clean_record\<close> has no type test: on \<open>{"useragent": 5}\<close> the call \<open>ua.strip()\<close> raises
  \<open>AttributeError\<close>, and the record \<open>{"browser": "chrome"}\<close> comes back with one key more.
\<close>

theorem clean_record_without_string:
  "clean_record [(useragent, JInt 5)] = Inl AttributeError \<and>
   clean_record [(py ''browser'', JStr (py ''chrome''))] =
     Inr ([(py ''browser'', JStr (py ''chrome'')), (useragent, JStr [])], False)"
  by (simp add: eval_defs)

text \<open>
  C5, as the scripts have it. \<open>fix_useragents\<close> returns one record for each record of the
  list it is given, in order, and raises nothing; each record whose \<open>useragent\<close> is absent
  or not a string comes back as it was, whatever the other records of the list are, and is
  not counted: the count is the number of records whose \<open>useragent\<close> is a string with a
  trailing space. \<open>_clean_record\<close> returns \<open>changed = False\<close> for a record without
  \<open>useragent\<close>, raises nothing there and keeps every field of the record in place; for a
  \<open>useragent\<close> that is not a string it raises \<open>AttributeError\<close>.
\<close>

theorem absent_or_not_string:
  "(length (fst (fix_useragents rs)) = length rs \<and>
    (\<forall>i<length rs. (\<forall>ua. dict_get (rs ! i) useragent \<noteq> Some (JStr ua)) \<longrightarrow>
       fst (fix_useragents rs) ! i = rs ! i) \<and>
    snd (fix_useragents rs) =
      length (filter (\<lambda>r. \<exists>ua. dict_get r useragent = Some (JStr ua) \<and> rstrip_space ua \<noteq> ua) rs)) \<and>
   (dict_get r useragent = None \<longrightarrow>
      (\<exists>r'. clean_record r = Inr (r', False) \<and> filter (\<lambda>p. fst p \<noteq> useragent) r' = r)) \<and>
   (\<forall>v. dict_get r useragent = Some v \<longrightarrow> (\<forall>ua. v \<noteq> JStr ua) \<longrightarrow>
      clean_record r = Inl AttributeError)"
proof (intro conjI impI allI)
  show "length (fst (fix_useragents rs)) = length rs"
    by (simp add: fix_useragents_eq)
  show "snd (fix_useragents rs) =
      length (filter (\<lambda>r. \<exists>ua. dict_get r useragent = Some (JStr ua) \<and> rstrip_space ua \<noteq> ua) rs)"
    by (rule fix_useragents_count)
next
  fix i
  assume "i < length rs" and "\<forall>ua. dict_get (rs ! i) useragent \<noteq> Some (JStr ua)"
  then show "fst (fix_useragents rs) ! i = rs ! i"
    by (simp add: fix_useragents_eq fix_rec_not_string)
next
  assume n: "dict_get r useragent = None"
  then have "filter (\<lambda>p. fst p \<noteq> useragent) (r @ [(useragent, JStr [])]) = r"
    by (simp add: dict_get_None_filter)
  with n show "\<exists>r'. clean_record r = Inr (r', False) \<and> filter (\<lambda>p. fst p \<noteq> useragent) r' = r"
    by (simp add: clean_record_absent)
next
  fix v
  assume "dict_get r useragent = Some v" and "\<forall>ua. v \<noteq> JStr ua"
  then show "clean_record r = Inl AttributeError"
    by (rule clean_record_not_string)
qed

theorem absent_or_not_string_witness:
  "fix_useragents [[(useragent, JStr (py ''A ''))], [(py ''browser'', JStr (py ''chrome''))],
                   [(useragent, JInt 5)], [(useragent, JStr (py ''B''))]] =
     ([[(useragent, JStr (py ''A''))], [(py ''browser'', JStr (py ''chrome''))],
       [(useragent, JInt 5)], [(useragent, JStr (py ''B''))]], 1) \<and>
   dict_get [(py ''browser'', JStr (py ''chrome''))] useragent = None \<and>
   (\<exists>r'. clean_record [(py ''browser'', JStr (py ''chrome''))] = Inr (r', False) \<and>
         filter (\<lambda>p. fst p \<noteq> useragent) r' = [(py ''browser'', JStr (py ''chrome''))]) \<and>
   dict_get [(useragent, JNull)] useragent = Some JNull \<and>
   clean_record [(useragent, JNull)] = Inl AttributeError"
proof -
  have 1: "fix_useragents [[(useragent, JStr (py ''A ''))], [(py ''browser'', JStr (py ''chrome''))],
                   [(useragent, JInt 5)], [(useragent, JStr (py ''B''))]] =
     ([[(useragent, JStr (py ''A''))], [(py ''browser'', JStr (py ''chrome''))],
       [(useragent, JInt 5)], [(useragent, JStr (py ''B''))]], 1)"
    using absent_or_not_string [THEN conjunct1, of
        "[[(useragent, JStr (py ''A ''))], [(py ''browser'', JStr (py ''chrome''))],
          [(useragent, JInt 5)], [(useragent, JStr (py ''B''))]]"]
    by (simp add: eval_defs)
  have 2: "dict_get [(py ''browser'', JStr (py ''chrome''))] useragent = None \<and>
     (\<exists>r'. clean_record [(py ''browser'', JStr (py ''chrome''))] = Inr (r', False) \<and>
         filter (\<lambda>p. fst p \<noteq> useragent) r' = [(py ''browser'', JStr (py ''chrome''))])"
    using absent_or_not_string [THEN conjunct2, THEN conjunct1, of "[(py ''browser'', JStr (py ''chrome''))]"]
    by (simp add: eval_defs)
  have 3: "dict_get [(useragent, JNull)] useragent = Some JNull \<and>
     clean_record [(useragent, JNull)] = Inl AttributeError"
    using absent_or_not_string [THEN conjunct2, THEN conjunct2, of "[(useragent, JNull)]"]
    by (simp add: eval_defs)
  from 1 2 3 show ?thesis by blast
qed

section \<open>The other fields (C6)\<close>

text \<open>
  C6, as the specification has it: every field other than \<open>useragent\<close> is byte-identical
  before and after the normalization and the fix pipeline.

  \<open>fix_file\<close> copies no field: it decodes each line with \<open>json.loads\<close> and writes the
  record with \<open>json.dumps\<close>. The line \<open>precise_line\<close> gives \<open>percent\<close> as
  \<open>1.0000000000000001\<close>; the float decoded from it is \<open>1.0\<close>, and the line written is
  \<open>rounded_line\<close>, with other bytes for \<open>percent\<close>. \<open>load_jsonl\<close>, \<open>fix_useragents\<close>
  and \<open>save_jsonl\<close>, one after the other, write the same line.
\<close>

theorem fix_file_rewrites_number:
  "fix_file sample_loads sample_dumps (Some (jsonl [precise_line])) =
     Inr (jsonl [rounded_line], 1, 0, 1) \<and>
   load_jsonl sample_loads (Some (jsonl [precise_line])) = Inr [JObj percent_record] \<and>
   fix_useragents [percent_record] = ([percent_record], 0) \<and>
   save_jsonl sample_dumps [JObj percent_record] = Inr (jsonl [rounded_line]) \<and>
   jsonl [rounded_line] \<noteq> jsonl [precise_line]"
  by (simp add: jsonl_def save_jsonl_def file_defs eval_defs sample_defs)

text \<open>
  C6, as the scripts have it.
  \<^item> On the decoded records: for \<open>fix_useragents\<close> the fields other than \<open>useragent\<close> are
    the same list of pairs before and after, and the keys are the same sequence; for
    \<open>_clean_record\<close>, whenever it returns, the fields other than \<open>useragent\<close> are the same
    list of pairs, each key other than \<open>useragent\<close> looks up the same value, and the keys
    are the same sequence when the record had a \<open>useragent\<close>.
  \<^item> When \<open>fix_file\<close> returns, the file it wrote holds one line for each object decoded
    from the non-blank lines of its source, in order: \<open>json.dumps\<close> of a record whose
    fields other than \<open>useragent\<close> are those of the decoded object, values and order, and
    whose keys are the same sequence when the object had a \<open>useragent\<close>.
  \<^item> \<open>save_jsonl\<close> writes the records \<open>fix_useragents\<close> returns in the same way, one
    \<open>json.dumps\<close> line for each.

  So each other field keeps its decoded value and its place; its bytes in the file are
  those \<open>json.dumps\<close> writes for that value.
\<close>

theorem other_fields_keep_values:
  "(map (filter (\<lambda>p. fst p \<noteq> useragent)) (fst (fix_useragents rs)) =
      map (filter (\<lambda>p. fst p \<noteq> useragent)) rs \<and>
    map (map fst) (fst (fix_useragents rs)) = map (map fst) rs) \<and>
   (\<forall>r' c. clean_record r = Inr (r', c) \<longrightarrow>
      filter (\<lambda>p. fst p \<noteq> useragent) r' = filter (\<lambda>p. fst p \<noteq> useragent) r \<and>
      (\<forall>k. k \<noteq> useragent \<longrightarrow> dict_get r' k = dict_get r k) \<and>
      (dict_get r useragent \<noteq> None \<longrightarrow> map fst r' = map fst r)) \<and>
   (\<forall>written counts. fix_file loads dumps source = Inr (written, counts) \<longrightarrow>
      (\<exists>content ds recs.
         source = Some content \<and>
         ds = decoded_objects loads (filter (\<lambda>l. str_strip l \<noteq> []) (splitlines content)) \<and>
         length recs = length ds \<and>
         (\<forall>i<length ds.
            filter (\<lambda>p. fst p \<noteq> useragent) (recs ! i) =
              filter (\<lambda>p. fst p \<noteq> useragent) (ds ! i) \<and>
            (dict_get (ds ! i) useragent \<noteq> None \<longrightarrow> map fst (recs ! i) = map fst (ds ! i))) \<and>
         written = concat (map (\<lambda>r. dumps (JObj r) @ [10]) recs))) \<and>
   (\<forall>written. save_jsonl dumps (map JObj (fst (fix_useragents rs))) = Inr written \<longrightarrow>
      written = concat (map (\<lambda>r. dumps (JObj r) @ [10]) (fst (fix_useragents rs))))"
proof (intro conjI allI impI)
  show "map (filter (\<lambda>p. fst p \<noteq> useragent)) (fst (fix_useragents rs)) =
      map (filter (\<lambda>p. fst p \<noteq> useragent)) rs"
    by (simp add: fix_useragents_eq fix_rec_others)
  show "map (map fst) (fst (fix_useragents rs)) = map (map fst) rs"
    by (simp add: fix_useragents_eq fix_rec_keys)
next
  fix r' c
  assume run: "clean_record r = Inr (r', c)"
  then show o: "filter (\<lambda>p. fst p \<noteq> useragent) r' = filter (\<lambda>p. fst p \<noteq> useragent) r"
    by (rule clean_record_others)
  show "dict_get r' k = dict_get r k" if "k \<noteq> useragent" for k
    using o that by (rule others_imp_lookup)
  show "map fst r' = map fst r" if "dict_get r useragent \<noteq> None"
    using run that by (rule clean_record_keys)
next
  fix written counts
  assume run: "fix_file loads dumps source = Inr (written, counts)"
  obtain a b c where "counts = (a, b, c)" by (cases counts)
  with run have "fix_file loads dumps source = Inr (written, a, b, c)" by simp
  from fix_file_steps [OF this] obtain content steps where
    c: "source = Some content" and
    m: "map Inr steps =
       map clean_record (decoded_objects loads
         (filter (\<lambda>l. str_strip l \<noteq> []) (splitlines content)))" and
    w: "written = concat (map (\<lambda>p. dumps (JObj (fst p)) @ [10]) steps)"
    by blast
  let ?ds = "decoded_objects loads (filter (\<lambda>l. str_strip l \<noteq> []) (splitlines content))"
  have len: "length steps = length ?ds" using m by (rule steps_nth)
  have step: "clean_record (?ds ! i) = Inr (fst (steps ! i), snd (steps ! i))"
    if "i < length ?ds" for i
    using steps_nth(2) [OF m that] by simp
  show "\<exists>content ds recs.
         source = Some content \<and>
         ds = decoded_objects loads (filter (\<lambda>l. str_strip l \<noteq> []) (splitlines content)) \<and>
         length recs = length ds \<and>
         (\<forall>i<length ds.
            filter (\<lambda>p. fst p \<noteq> useragent) (recs ! i) =
              filter (\<lambda>p. fst p \<noteq> useragent) (ds ! i) \<and>
            (dict_get (ds ! i) useragent \<noteq> None \<longrightarrow> map fst (recs ! i) = map fst (ds ! i))) \<and>
         written = concat (map (\<lambda>r. dumps (JObj r) @ [10]) recs)"
  proof (rule exI [of _ content], rule exI [of _ ?ds], rule exI [of _ "map fst steps"],
      intro conjI allI impI)
    show "source = Some content" by (rule c)
    show "length (map fst steps) = length ?ds" using len by simp
    show "written = concat (map (\<lambda>r. dumps (JObj r) @ [10]) (map fst steps))"
      using w by (simp add: comp_def)
  next
    fix i
    assume i: "i < length ?ds"
    from clean_record_others [OF step [OF i]] i len
    show "filter (\<lambda>p. fst p \<noteq> useragent) (map fst steps ! i) =
            filter (\<lambda>p. fst p \<noteq> useragent) (?ds ! i)"
      by simp
    assume "dict_get (?ds ! i) useragent \<noteq> None"
    from clean_record_keys [OF step [OF i] this] i len
    show "map fst (map fst steps ! i) = map fst (?ds ! i)" by simp
  qed simp
next
  fix written
  assume "save_jsonl dumps (map JObj (fst (fix_useragents rs))) = Inr written"
  then show "written = concat (map (\<lambda>r. dumps (JObj r) @ [10]) (fst (fix_useragents rs)))"
    by (auto simp: save_jsonl_def write_utf8_def comp_def split: if_splits)
qed

theorem other_fields_keep_values_witness:
  "clean_record [(py ''browser'', JStr (py ''chrome'')), (useragent, JStr (py ''A '')), (py ''version'', JInt 120)] =
     Inr ([(py ''browser'', JStr (py ''chrome'')), (useragent, JStr (py ''A'')), (py ''version'', JInt 120)], True) \<and>
   dict_get [(py ''browser'', JStr (py ''chrome'')), (useragent, JStr (py ''A'')), (py ''version'', JInt 120)]
     (py ''version'') = Some (JInt 120) \<and>
   fix_file sample_loads sample_dumps (Some (jsonl [chrome_line])) =
     Inr (jsonl [chrome_fixed_line], 1, 1, 0) \<and>
   decoded_objects sample_loads [chrome_line] = [chrome_record] \<and>
   filter (\<lambda>p. fst p \<noteq> useragent) chrome_fixed_record =
     filter (\<lambda>p. fst p \<noteq> useragent) chrome_record \<and>
   save_jsonl sample_dumps (map JObj (fst (fix_useragents [chrome_record]))) =
     Inr (jsonl [chrome_fixed_line])"
  using other_fields_keep_values [where
      r = "[(py ''browser'', JStr (py ''chrome'')), (useragent, JStr (py ''A '')), (py ''version'', JInt 120)]" and
      rs = "[chrome_record]" and loads = sample_loads and dumps = sample_dumps and
      source = "Some (jsonl [chrome_line])"]
  by (simp add: jsonl_def save_jsonl_def decoded_objects_def file_defs eval_defs sample_defs)

section \<open>Loading what the fix wrote (C7)\<close>

text \<open>
  When the loop of \<open>fix_file\<close> returns, it has one record for each non-blank line.
\<close>

lemma fix_file_loop_count:
  "fix_file_loop loads lines idx records n = Inr (records', n') \<Longrightarrow>
   length records' = length records + length (filter (\<lambda>l. str_strip l \<noteq> []) lines)"
proof (induction lines arbitrary: idx records n)
  case Nil
  then show ?case by simp
next
  case (Cons l ls)
  show ?case
  proof (cases "str_strip l = []")
    case True
    with Cons show ?thesis by simp
  next
    case False
    from False Cons.prems obtain rec m where
      "fix_file_loop loads ls (idx + 1) (records @ [rec]) m = Inr (records', n')"
      by (auto split: sum.splits json.splits prod.splits loads_error.splits)
    from Cons.IH [OF this] False show ?thesis by simp
  qed
qed

text \<open>
  C7: loading the output of the fix yields as many records as loading its input.

  The file \<open>ls_line\<close> loads as one record and \<open>fix_file\<close> succeeds on it, but the file it
  writes holds U+2028 as it is: \<open>splitlines\<close> cuts the line in two and \<open>load_jsonl\<close> raises
  \<open>ValueError\<close> for line 1, so there is no record list to count. \<open>fix_browsers_json\<close>
  writes the same line, and \<open>readlines\<close>, which ends a line at LF and CR only, reads it
  back whole.
\<close>

theorem reload_fails_on_line_separator:
  \<open>load_jsonl sample_loads (Some ls_line) = Inr [JObj ls_record] \<and>
   (\<exists>counts. fix_file sample_loads sample_dumps (Some ls_line) = Inr (ls_written_line @ [10], counts)) \<and>
   splitlines (ls_written_line @ [10]) = [ls_head, py ''b"}''] \<and>
   load_jsonl sample_loads (Some (ls_written_line @ [10])) = Inl (ValueError 1 ls_diag) \<and>
   fix_browsers_json sample_loads sample_dumps (Some ls_line) =
     Inr (ls_written_line, \<lparr>total_uas = 1, fixed_uas = 0, unchanged_uas = 1, errors = 0\<rparr>) \<and>
   readlines ls_written_line = [ls_written_line]\<close>
  by (simp add: file_defs eval_defs sample_defs)

section \<open>Saving records and loading them back (C8)\<close>

text \<open>
  What \<open>save_jsonl\<close> writes, \<open>load_jsonl\<close> loads back as the same list of records
  whenever \<open>json.dumps\<close> writes each record as a non-blank line with no line boundary of
  \<open>splitlines\<close> and no surrogate, and \<open>json.loads\<close> returns the record for that line.
\<close>

lemma save_load_round_trip:
  assumes "\<forall>v\<in>set records. plain_line (dumps v) \<and> str_strip (dumps v) \<noteq> [] \<and>
             \<not> list_ex is_surrogate (dumps v) \<and> loads (dumps v) = Inr v"
  shows "save_jsonl dumps records = Inr (jsonl (map dumps records)) \<and>
         load_jsonl loads (Some (jsonl (map dumps records))) = Inr records"
proof
  have "\<not> list_ex is_surrogate (jsonl (map dumps records))"
    using assms by (auto simp: jsonl_def list_ex_iff is_surrogate_def)
  then show "save_jsonl dumps records = Inr (jsonl (map dumps records))"
    by (simp add: save_jsonl_def write_utf8_def jsonl_def comp_def)
  have split: "splitlines (jsonl (map dumps records)) = map dumps records"
    by (rule splitlines_jsonl) (use assms in simp)
  have nb: "filter (\<lambda>l. str_strip l \<noteq> []) (map dumps records) = map dumps records"
    using assms by (simp add: filter_id_conv)
  have "\<forall>l\<in>set (map dumps records). str_strip l = [] \<or> (\<exists>v. loads l = Inr v)"
    using assms by auto
  from load_loop_all_decoded [OF this, of 1 "[]"] obtain vs where
    run: "load_loop loads (map dumps records) 1 [] = Inr vs" and
    vs: "map Inr vs = map loads (filter (\<lambda>l. str_strip l \<noteq> []) (map dumps records))"
    by auto
  have "map loads (map dumps records) = map Inr records"
    using assms by simp
  with vs nb have "map Inr vs = (map Inr records :: (loads_error + json) list)" by simp
  then have "vs = records"
    by (simp add: inj_map_eq_map)
  with run split show "load_jsonl loads (Some (jsonl (map dumps records))) = Inr records"
    by (simp add: load_jsonl_def)
qed


section \<open>The fallback header check (C9)\<close>

text \<open>
  C9, as the specification has it: without the HTTP client library, the fallback check
  accepts a string exactly when it has no leading space, no trailing space and no ASCII
  control character (a code point below 0x20, or 0x7F).

  \<open>simple_header_validator\<close> looks for CR, LF and NUL only: it accepts a value with a tab
  in it, and one that ends with DEL, where \<open>_fallback_validator\<close> raises.
\<close>

theorem simple_validator_accepts_control:
  "simple_header_validator (JStr (py ''Mozilla'' @ [9] @ py ''5.0'')) \<and>
   simple_header_validator (JStr (py ''Mozilla'' @ [127])) \<and>
   \<not> fallback_validator (py ''Mozilla'' @ [9] @ py ''5.0'')"
  by (simp add: eval_defs fallback_validator_def simple_header_validator_def)

text \<open>
  C9, as the scripts have it: \<open>_fallback_validator\<close> accepts a string exactly when it has no
  leading space, no trailing space and no code point below 0x20 or equal to 0x7F;
  \<open>simple_header_validator\<close> accepts a value exactly when it is a string with no leading
  space, no trailing space and none of CR, LF and NUL.
\<close>

theorem fallback_validators_accept:
  "(fallback_validator ua \<longleftrightarrow>
      \<not> startswith_space ua \<and> \<not> endswith_space ua \<and> (\<forall>ch\<in>set ua. \<not> (ch < 32 \<or> ch = 127))) \<and>
   (simple_header_validator v \<longleftrightarrow>
      (\<exists>s. v = JStr s \<and> \<not> startswith_space s \<and> \<not> endswith_space s \<and>
           13 \<notin> set s \<and> 10 \<notin> set s \<and> 0 \<notin> set s))"
proof
  show "fallback_validator ua \<longleftrightarrow>
      \<not> startswith_space ua \<and> \<not> endswith_space ua \<and> (\<forall>ch\<in>set ua. \<not> (ch < 32 \<or> ch = 127))"
    by (simp add: fallback_validator_def control_scan_iff)
  show "simple_header_validator v \<longleftrightarrow>
      (\<exists>s. v = JStr s \<and> \<not> startswith_space s \<and> \<not> endswith_space s \<and>
           13 \<notin> set s \<and> 10 \<notin> set s \<and> 0 \<notin> set s)"
    by (cases v) (auto simp: simple_header_validator_def)
qed

theorem fallback_validators_accept_witness:
  "fallback_validator (py ''Mozilla/5.0 (X11)'') \<and> \<not> fallback_validator (py ''Mozilla/5.0 '') \<and>
   \<not> fallback_validator (py ''Mozilla'' @ [127]) \<and>
   simple_header_validator (JStr (py ''Mozilla/5.0 (X11)'')) \<and>
   \<not> simple_header_validator (JStr (py ''Mozilla'' @ [10]))"
  using fallback_validators_accept [of "py ''Mozilla/5.0 (X11)''" "JStr (py ''Mozilla/5.0 (X11)'')"]
  by (simp add: eval_defs fallback_validator_def simple_header_validator_def)

section \<open>The stored value is a part of the original (C10)\<close>

text \<open>
  C10: for a record whose \<open>useragent\<close> is the string \<open>ua\<close>, the value each of the three
  normalizers stores is a contiguous part of \<open>ua\<close> (\<open>sublist\<close>), so no longer than \<open>ua\<close>
  and with no character inserted, replaced or moved.
\<close>

theorem normalized_is_substring:
  assumes "dict_get r useragent = Some (JStr ua)"
  shows "(\<exists>ua'. dict_get (fst (fix_rec r)) useragent = Some (JStr ua') \<and>
               sublist ua' ua \<and> length ua' \<le> length ua) \<and>
         (\<exists>r' c ua'. clean_record r = Inr (r', c) \<and> dict_get r' useragent = Some (JStr ua') \<and>
               sublist ua' ua \<and> length ua' \<le> length ua) \<and>
         (\<exists>r' c ua'. fix_step r = Inr (r', c) \<and> dict_get r' useragent = Some (JStr ua') \<and>
               sublist ua' ua \<and> length ua' \<le> length ua)"
proof (intro conjI)
  have "sublist (rstrip_space ua) ua"
    by (simp add: rstrip_space_def rstrip_by_sublist)
  then show "\<exists>ua'. dict_get (fst (fix_rec r)) useragent = Some (JStr ua') \<and>
               sublist ua' ua \<and> length ua' \<le> length ua"
    using assms by (auto simp: fix_rec_string_value dest: sublist_length_le)
  show "\<exists>r' c ua'. clean_record r = Inr (r', c) \<and> dict_get r' useragent = Some (JStr ua') \<and>
               sublist ua' ua \<and> length ua' \<le> length ua"
    using assms str_strip_sublist [of ua]
    by (auto simp: clean_record_string dict_get_setitem dest: sublist_length_le)
  have "sublist (str_rstrip ua) ua"
    by (simp add: str_rstrip_def rstrip_by_sublist)
  then show "\<exists>r' c ua'. fix_step r = Inr (r', c) \<and> dict_get r' useragent = Some (JStr ua') \<and>
               sublist ua' ua \<and> length ua' \<le> length ua"
    using assms
    by (auto simp: fix_step_string dict_get_setitem dest: sublist_length_le)
qed

theorem normalized_is_substring_witness:
  "dict_get [(useragent, JStr (py '' A B ''))] useragent = Some (JStr (py '' A B '')) \<and>
   (\<exists>ua'. dict_get (fst (fix_rec [(useragent, JStr (py '' A B ''))])) useragent = Some (JStr ua') \<and>
      sublist ua' (py '' A B '') \<and> length ua' \<le> 5)"
  using normalized_is_substring [of "[(useragent, JStr (py '' A B ''))]" "py '' A B ''"]
  by (simp add: eval_defs)

end
